theory Spec2Isabelle
  imports Complex_Main "HOL-Library.Sublist" "HOL-Library.AList"
begin

section \<open>Text primitives of the Python source\<close>

text \<open>
  Python strings are modelled as \<^typ>\<open>string\<close>. The development covers ASCII text: the
  character classes below are the ASCII parts of Python's \<^verbatim>\<open>str.lower\<close>, of the
  regular-expression classes \<^verbatim>\<open>\w\<close> and \<^verbatim>\<open>\s\<close>, and of the whitespace
  \<^verbatim>\<open>str.split()\<close> splits on.
\<close>

datatype py_error = ImportError | IndexError | ValueError

definition ascii_upper :: string where
  "ascii_upper = ''ABCDEFGHIJKLMNOPQRSTUVWXYZ''"

definition ascii_lower :: string where
  "ascii_lower = ''abcdefghijklmnopqrstuvwxyz''"

definition ascii_digits :: string where
  "ascii_digits = ''0123456789''"

definition lower_char :: "char \<Rightarrow> char" where
  "lower_char c = (case map_of (zip ascii_upper ascii_lower) c of Some l \<Rightarrow> l | None \<Rightarrow> c)"

definition lower :: "string \<Rightarrow> string" where
  "lower s = map lower_char s"

definition is_word_char :: "char \<Rightarrow> bool" where
  "is_word_char c \<longleftrightarrow> c \<in> set ascii_upper \<or> c \<in> set ascii_lower \<or> c \<in> set ascii_digits \<or> c = CHR ''_''"

definition is_space_char :: "char \<Rightarrow> bool" where
  "is_space_char c \<longleftrightarrow>
     c \<in> {CHR '' '', CHR 0x09, CHR 0x0A, CHR 0x0B, CHR 0x0C, CHR 0x0D,
          CHR 0x1C, CHR 0x1D, CHR 0x1E, CHR 0x1F}"

text \<open>\<^verbatim>\<open>re.sub(r'[^\w\s]', ' ', s)\<close>\<close>

definition re_sub_punct :: "string \<Rightarrow> string" where
  "re_sub_punct s = map (\<lambda>c. if is_word_char c \<or> is_space_char c then c else CHR '' '') s"

text \<open>\<^verbatim>\<open>s.split()\<close>: split at runs of whitespace, no empty pieces.\<close>

fun split_aux :: "string \<Rightarrow> string \<Rightarrow> string list" where
  "split_aux cur [] = (if cur = [] then [] else [cur])"
| "split_aux cur (c # cs) =
     (if is_space_char c
      then (if cur = [] then split_aux [] cs else cur # split_aux [] cs)
      else split_aux (cur @ [c]) cs)"

definition py_split :: "string \<Rightarrow> string list" where
  "py_split s = split_aux [] s"

text \<open>\<^verbatim>\<open>sep.join(parts)\<close>\<close>

fun join :: "string \<Rightarrow> string list \<Rightarrow> string" where
  "join sep [] = []"
| "join sep [x] = x"
| "join sep (x # y # ys) = x @ sep @ join sep (y # ys)"

text \<open>\<^verbatim>\<open>q in s\<close> on strings: \<open>q\<close> occurs in \<open>s\<close> as a contiguous substring.\<close>

fun py_in :: "string \<Rightarrow> string \<Rightarrow> bool" where
  "py_in q [] \<longleftrightarrow> q = []"
| "py_in q (c # cs) \<longleftrightarrow> prefix q (c # cs) \<or> py_in q cs"

section \<open>Documents and the store\<close>

text \<open>
  A cheat sheet is a dictionary with fixed keys; the key \<^verbatim>\<open>keyword_path\<close> may be absent,
  which is \<^const>\<open>None\<close> here.
\<close>

record cheatsheet =
  name :: string
  content :: string
  categories :: "string list"
  keyword_path :: "string list option"
  description :: string
  created_at :: string
  updated_at :: string

text \<open>The taxonomy is a nested dictionary; insertion order is the order of the list.\<close>

datatype taxonomy = Node "(string \<times> taxonomy) list"

record store =
  cheatsheets :: "cheatsheet list"
  keyword_taxonomy :: taxonomy

text \<open>An optional list argument tested with \<^verbatim>\<open>if path:\<close> is true when given and non-empty.\<close>

fun truthy :: "'a list option \<Rightarrow> bool" where
  "truthy None \<longleftrightarrow> False"
| "truthy (Some xs) \<longleftrightarrow> xs \<noteq> []"

fun arg_list :: "'a list option \<Rightarrow> 'a list" where
  "arg_list None = []"
| "arg_list (Some xs) = xs"

section \<open>Tokenizer\<close>

definition tokenize :: "string \<Rightarrow> string list" where
  "tokenize text =
     (if text = [] then []
      else let tokens = py_split (re_sub_punct (lower text))
           in filter (\<lambda>token. token \<noteq> []) tokens)"

section \<open>Keyword paths\<close>

text \<open>
  The loop of \<^verbatim>\<open>_is_prefix\<close> over \<^verbatim>\<open>enumerate(prefix)\<close>, from position \<open>i\<close>.
  The length test before the loop keeps every read \<open>full_path ! i\<close> in range.
\<close>

fun is_prefix_loop :: "nat \<Rightarrow> string list \<Rightarrow> string list \<Rightarrow> bool" where
  "is_prefix_loop i [] full_path \<longleftrightarrow> True"
| "is_prefix_loop i (keyword # rest) full_path \<longleftrightarrow>
     (if full_path ! i \<noteq> keyword then False else is_prefix_loop (Suc i) rest full_path)"

definition is_prefix :: "string list \<Rightarrow> string list \<Rightarrow> bool" where
  "is_prefix pfx full_path \<longleftrightarrow>
     (if length pfx > length full_path then False
      else is_prefix_loop 0 pfx full_path)"

definition search_by_keyword_path :: "cheatsheet list \<Rightarrow> string list \<Rightarrow> bool \<Rightarrow> cheatsheet list" where
  "search_by_keyword_path docs path exact_match =
     filter (\<lambda>cs. case keyword_path cs of
                    None \<Rightarrow> False
                  | Some kp \<Rightarrow> (exact_match \<and> kp = path) \<or>
                              (\<not> exact_match \<and> is_prefix path kp)) docs"

section \<open>Inverted index\<close>

text \<open>
  The index is a dictionary from token to a set of document positions. One step of the
  innermost loop body of \<^verbatim>\<open>_create_index\<close>:
\<close>

definition index_add :: "nat \<Rightarrow> (string \<rightharpoonup> nat set) \<Rightarrow> string \<Rightarrow> (string \<rightharpoonup> nat set)" where
  "index_add i index token =
     (let index' = (if index token = None then index(token \<mapsto> {}) else index)
      in index'(token \<mapsto> insert i (the (index' token))))"

definition index_text :: "nat \<Rightarrow> (string \<rightharpoonup> nat set) \<Rightarrow> string \<Rightarrow> (string \<rightharpoonup> nat set)" where
  "index_text i index text = foldl (index_add i) index (tokenize text)"

definition index_cheatsheet :: "(string \<rightharpoonup> nat set) \<Rightarrow> nat \<times> cheatsheet \<Rightarrow> (string \<rightharpoonup> nat set)" where
  "index_cheatsheet index ics =
     (case ics of (i, cs) \<Rightarrow>
        let index1 = index_text i index (name cs);
            index2 = foldl (index_text i) index1 (categories cs);
            index3 = (case keyword_path cs of
                        None \<Rightarrow> index2
                      | Some kp \<Rightarrow> foldl (index_text i) index2 kp);
            index4 = index_text i index3 (description cs)
        in index_text i index4 (content cs))"

definition create_index :: "cheatsheet list \<Rightarrow> (string \<rightharpoonup> nat set)" where
  "create_index docs = foldl index_cheatsheet Map.empty (enumerate 0 docs)"

section \<open>Full-text search\<close>

text \<open>
  The token loop of \<^verbatim>\<open>full_text_search\<close> either leaves the function with the empty
  list (a token is not a key of the index) or finishes with \<^verbatim>\<open>matching_docs\<close>, which is
  still \<^verbatim>\<open>None\<close> when no token was seen.
\<close>

datatype loop_result = Return_Empty | Finished "nat set option"

fun match_tokens :: "(string \<rightharpoonup> nat set) \<Rightarrow> string list \<Rightarrow> nat set option \<Rightarrow> loop_result" where
  "match_tokens index [] matching_docs = Finished matching_docs"
| "match_tokens index (token # rest) matching_docs =
     (case index token of
        Some posting \<Rightarrow>
          (case matching_docs of
             None \<Rightarrow> match_tokens index rest (Some posting)
           | Some m \<Rightarrow> match_tokens index rest (Some (m \<inter> posting)))
      | None \<Rightarrow> Return_Empty)"

text \<open>
  \<^verbatim>\<open>[xs[i] for i in positions]\<close>: a position outside the list raises \<^verbatim>\<open>IndexError\<close>.
\<close>

fun lookup_all :: "'a list \<Rightarrow> nat list \<Rightarrow> py_error + 'a list" where
  "lookup_all xs [] = Inr []"
| "lookup_all xs (i # rest) =
     (if i < length xs
      then (case lookup_all xs rest of Inl e \<Rightarrow> Inl e | Inr ys \<Rightarrow> Inr (xs ! i # ys))
      else Inl IndexError)"

text \<open>
  Python walks the set \<^verbatim>\<open>matching_docs\<close> in the order of its hash table; the model walks
  it in ascending order, the natural order of the documents.
\<close>

definition full_text_search :: "cheatsheet list \<Rightarrow> string \<Rightarrow> string list option \<Rightarrow> py_error + cheatsheet list" where
  "full_text_search docs query kw_path =
     (let query_tokens = tokenize query in
      if query_tokens = [] then Inr []
      else
        let index = create_index docs in
        case match_tokens index query_tokens None of
          Return_Empty \<Rightarrow> Inr []
        | Finished None \<Rightarrow> Inr []
        | Finished (Some matching_docs) \<Rightarrow>
            (case lookup_all docs (sorted_list_of_set matching_docs) of
               Inl e \<Rightarrow> Inl e
             | Inr results \<Rightarrow>
                 if truthy kw_path
                 then Inr (filter (\<lambda>cs. case keyword_path cs of
                                         None \<Rightarrow> False
                                       | Some kp \<Rightarrow> is_prefix (arg_list kw_path) kp) results)
                 else Inr results))"

section \<open>Substring search\<close>

text \<open>The chain of field tests in the loop body of \<^verbatim>\<open>search_cheatsheets\<close>.\<close>

definition matches_query :: "string \<Rightarrow> cheatsheet \<Rightarrow> bool" where
  "matches_query query cs \<longleftrightarrow>
     py_in query (lower (name cs))
   \<or> (\<exists>cat \<in> set (categories cs). py_in query (lower cat))
   \<or> (case keyword_path cs of None \<Rightarrow> False | Some kp \<Rightarrow> \<exists>kw \<in> set kp. py_in query (lower kw))
   \<or> py_in query (lower (description cs))
   \<or> py_in query (lower (content cs))"

definition search_cheatsheets :: "cheatsheet list \<Rightarrow> string \<Rightarrow> string list option \<Rightarrow> cheatsheet list" where
  "search_cheatsheets docs query path =
     (let candidates = (if truthy path then search_by_keyword_path docs (arg_list path) False
                        else docs);
          query = lower query
      in filter (matches_query query) candidates)"

definition basic_search :: "cheatsheet list \<Rightarrow> string \<Rightarrow> string list option \<Rightarrow> cheatsheet list" where
  "basic_search docs query kw_path = search_cheatsheets docs query kw_path"

section \<open>Fuzzy search\<close>

text \<open>
  \<^verbatim>\<open>xs.sort(key=k, reverse=True)\<close> reverses the list, sorts it stably in ascending order
  and reverses it again, so equal keys keep their original order.
\<close>

definition sort_reverse :: "('a \<Rightarrow> 'k::linorder) \<Rightarrow> 'a list \<Rightarrow> 'a list" where
  "sort_reverse k xs = rev (sort_key k (rev xs))"

text \<open>
  The similarity ratio comes from the library class \<^verbatim>\<open>difflib.SequenceMatcher\<close>; the
  search takes it as the argument \<open>ratio\<close>. Scores are ordered values with a zero (the
  initial \<^verbatim>\<open>category_similarity = 0\<close>).
\<close>

definition max_similarity :: "(string \<Rightarrow> string \<Rightarrow> 's::{linorder,zero}) \<Rightarrow> string \<Rightarrow> cheatsheet \<Rightarrow> 's" where
  "max_similarity ratio query cs =
     (let name_similarity = ratio query (lower (name cs));
          category_similarity =
            foldl (\<lambda>acc category. max acc (ratio query (lower category))) 0 (categories cs);
          path_similarity =
            (case keyword_path cs of
               None \<Rightarrow> 0
             | Some kp \<Rightarrow> foldl (\<lambda>acc keyword. max acc (ratio query (lower keyword))) 0 kp)
      in max (max name_similarity category_similarity) path_similarity)"

definition fuzzy_search :: "(string \<Rightarrow> string \<Rightarrow> 's::{linorder,zero}) \<Rightarrow> cheatsheet list \<Rightarrow> string \<Rightarrow> 's \<Rightarrow> cheatsheet list" where
  "fuzzy_search ratio docs query threshold =
     (let query = lower query;
          results = filter (\<lambda>r. snd r \<ge> threshold)
                      (map (\<lambda>cs. (cs, max_similarity ratio query cs)) docs)
      in map fst (sort_reverse snd results))"

subsection \<open>The ratio of difflib\<close>

text \<open>
  Modelled from the spec: the ratio of \<^verbatim>\<open>SequenceMatcher(None, a, b)\<close>, which is library
  code: ``matching-subsequence length over combined length''. The longest common block is
  taken first (the leftmost in \<open>a\<close>, then the leftmost in \<open>b\<close>), then the pieces to its left
  and to its right are matched in the same way; the ratio is twice the number of matched
  characters over the sum of the lengths, and 1 for two empty strings. The library's
  heuristic for a second string of 200 characters or more is left out. The score is the
  exact rational number whose nearest double Python computes.
\<close>

fun common_prefix_length :: "'a list \<Rightarrow> 'a list \<Rightarrow> nat" where
  "common_prefix_length (x # xs) (y # ys) = (if x = y then Suc (common_prefix_length xs ys) else 0)"
| "common_prefix_length _ _ = 0"

definition match_candidates :: "'a list \<Rightarrow> 'a list \<Rightarrow> (nat \<times> nat \<times> nat) list" where
  "match_candidates a b =
     concat (map (\<lambda>i. map (\<lambda>j. (i, j, common_prefix_length (drop i a) (drop j b)))
                          [0..<length b]) [0..<length a])"

definition better_match :: "nat \<times> nat \<times> nat \<Rightarrow> nat \<times> nat \<times> nat \<Rightarrow> nat \<times> nat \<times> nat" where
  "better_match best cand = (if snd (snd cand) > snd (snd best) then cand else best)"

definition find_longest_match :: "'a list \<Rightarrow> 'a list \<Rightarrow> nat \<times> nat \<times> nat" where
  "find_longest_match a b = foldl better_match (0, 0, 0) (match_candidates a b)"

lemma find_longest_match_range:
  assumes "find_longest_match a b = (i, j, k)" and "k \<noteq> 0"
  shows "i < length a \<and> j < length b"
proof -
  have inv: "foldl better_match best cs = best \<or> foldl better_match best cs \<in> set cs"
    for best :: "nat \<times> nat \<times> nat" and cs
  proof (induction cs arbitrary: best)
    case Nil
    show ?case by simp
  next
    case (Cons c cs)
    from Cons.IH [of "better_match best c"] show ?case
      by (auto simp: better_match_def split: if_splits)
  qed
  from inv [of "(0, 0, 0)" "match_candidates a b"] assms
  have "(i, j, k) \<in> set (match_candidates a b)"
    by (auto simp: find_longest_match_def)
  then show ?thesis
    by (auto simp: match_candidates_def)
qed

function matching_size :: "'a list \<Rightarrow> 'a list \<Rightarrow> nat" where
  "matching_size a b =
     (case find_longest_match a b of
        (i, j, k) \<Rightarrow>
          if k = 0 then 0
          else matching_size (take i a) (take j b) + k
             + matching_size (drop (i + k) a) (drop (j + k) b))"
  by pat_completeness auto
termination
proof (relation "measure (\<lambda>(a, b). length a)")
  show "wf (measure (\<lambda>(a, b). length a))" by simp
next
  fix a b :: "'a list" and x i y j k
  assume "(i, y) = find_longest_match a b" "(j, k) = y" "k \<noteq> 0"
  then have "find_longest_match a b = (i, j, k)" by simp
  from find_longest_match_range [OF this \<open>k \<noteq> 0\<close>]
  show "((take i a, take j b), (a, b)) \<in> measure (\<lambda>(a, b). length a)" by simp
next
  fix a b :: "'a list" and x i y j k
  assume "(i, y) = find_longest_match a b" "(j, k) = y" "k \<noteq> 0"
  then have "find_longest_match a b = (i, j, k)" by simp
  from find_longest_match_range [OF this \<open>k \<noteq> 0\<close>] \<open>k \<noteq> 0\<close>
  show "((drop (i + k) a, drop (j + k) b), (a, b)) \<in> measure (\<lambda>(a, b). length a)" by auto
qed

definition sequence_ratio :: "string \<Rightarrow> string \<Rightarrow> rat" where
  "sequence_ratio a b =
     (let total = length a + length b
      in if total = 0 then 1 else of_nat (2 * matching_size a b) / of_nat total)"

section \<open>TF-IDF search\<close>

text \<open>
  The vectorizer and the cosine similarity are library code (sklearn). The search takes
  them as the argument \<open>tfidf\<close>: from the corpus and the joined query tokens to the list of
  similarities, or to the exception raised inside the \<^verbatim>\<open>try\<close> block. The flag
  \<open>sklearn_available\<close> says whether the library can be imported. The import statement of
  the vectorizer stands before the \<^verbatim>\<open>try\<close>, so its failure is not caught.
  The result carries the lines printed and the list returned.
\<close>

definition corpus_text :: "cheatsheet \<Rightarrow> string" where
  "corpus_text cs =
     lower (name cs @ '' '' @ name cs @ '' '' @
            join '' '' (categories cs) @ '' '' @
            (case keyword_path cs of Some kp \<Rightarrow> join '' '' kp | None \<Rightarrow> []) @ '' '' @
            description cs @ '' '' @
            content cs)"

definition sklearn_warning :: string where
  "sklearn_warning = ''Warning: sklearn not available, falling back to basic search''"

definition semantic_search ::
  "bool \<Rightarrow> (string list \<Rightarrow> string \<Rightarrow> py_error + ('s::{linorder,zero}) list) \<Rightarrow>
   cheatsheet list \<Rightarrow> string \<Rightarrow> string list option \<Rightarrow> py_error + (string list \<times> cheatsheet list)" where
  "semantic_search sklearn_available tfidf docs query kw_path =
     (let candidates = (if truthy kw_path then search_by_keyword_path docs (arg_list kw_path) False
                        else docs) in
      if candidates = [] then Inr ([], [])
      else
        let query_tokens = tokenize query in
        if query_tokens = [] then Inr ([], [])
        else
          let corpus = map corpus_text candidates in
          if \<not> sklearn_available then Inl ImportError
          else
            (case tfidf corpus (join '' '' query_tokens) of
               Inr similarities \<Rightarrow>
                 (let similarity_scores = sort_reverse snd (enumerate 0 similarities)
                  in case lookup_all candidates
                            (map fst (filter (\<lambda>p. snd p > 0) similarity_scores)) of
                       Inl e \<Rightarrow> Inl e
                     | Inr ranked \<Rightarrow> Inr ([], ranked))
             | Inl ImportError \<Rightarrow> Inr ([sklearn_warning], basic_search docs query kw_path)
             | Inl e \<Rightarrow> Inl e))"

section \<open>Taxonomy\<close>

text \<open>
  \<^verbatim>\<open>_ensure_keyword_path_exists\<close> walks down from the node \<open>current\<close>, adding an empty
  child where the keyword is missing. The Python updates the nested dictionaries in place;
  here the updated node is returned.
\<close>

fun ensure_keyword_path_exists :: "taxonomy \<Rightarrow> string list \<Rightarrow> taxonomy" where
  "ensure_keyword_path_exists current [] = current"
| "ensure_keyword_path_exists (Node children) (keyword # rest) =
     (let children' = (if map_of children keyword = None
                       then AList.update keyword (Node []) children else children)
      in case map_of children' keyword of
           Some child \<Rightarrow>
             Node (AList.update keyword (ensure_keyword_path_exists child rest) children')
         | None \<Rightarrow> Node children')"

fun keyword_children_at :: "taxonomy \<Rightarrow> string list \<Rightarrow> string list" where
  "keyword_children_at (Node children) [] = map fst children"
| "keyword_children_at (Node children) (keyword # rest) =
     (case map_of children keyword of
        None \<Rightarrow> []
      | Some child \<Rightarrow> keyword_children_at child rest)"

definition get_keyword_children :: "taxonomy \<Rightarrow> string list option \<Rightarrow> string list" where
  "get_keyword_children tax path = keyword_children_at tax (arg_list path)"

section \<open>Adding and migrating documents\<close>

text \<open>
  \<^verbatim>\<open>re.match(r'^[a-zA-Z0-9_-]+$', name)\<close>: one or more allowed characters; \<^verbatim>\<open>$\<close> also
  matches before one final newline.
\<close>

definition name_char :: "char \<Rightarrow> bool" where
  "name_char c \<longleftrightarrow> c \<in> set ascii_lower \<or> c \<in> set ascii_upper \<or> c \<in> set ascii_digits
                  \<or> c = CHR ''_'' \<or> c = CHR ''-''"

definition valid_name :: "string \<Rightarrow> bool" where
  "valid_name n \<longleftrightarrow>
     (let body = (if n \<noteq> [] \<and> last n = CHR 0x0A then butlast n else n)
      in body \<noteq> [] \<and> list_all name_char body)"

text \<open>
  \<^verbatim>\<open>add_cheatsheet\<close> returns a truth value and changes the store. \<open>now\<close> is the time
  stamp; \<open>save\<close> is the outcome of writing the store to its file, which fails without an
  exception. Optional arguments are options. The error messages printed are left out.
\<close>

definition add_cheatsheet ::
  "(store \<Rightarrow> bool) \<Rightarrow> string \<Rightarrow> store \<Rightarrow> string \<Rightarrow> string \<Rightarrow> string list option \<Rightarrow>
   string list option \<Rightarrow> string option \<Rightarrow> bool \<times> store" where
  "add_cheatsheet save now st nm cont cats kw_path descr =
     (if \<not> valid_name nm then (False, st)
      else if \<exists>cs \<in> set (cheatsheets st). name cs = nm then (False, st)
      else
        let new_cheatsheet =
              \<lparr>name = nm, content = cont, categories = arg_list cats, keyword_path = None,
               description = (case descr of None \<Rightarrow> [] | Some d \<Rightarrow> d),
               created_at = now, updated_at = now\<rparr>;
            (new_cheatsheet, tax) =
              (if truthy kw_path
               then (new_cheatsheet\<lparr>keyword_path := kw_path\<rparr>,
                     ensure_keyword_path_exists (keyword_taxonomy st) (arg_list kw_path))
               else (new_cheatsheet, keyword_taxonomy st));
            st' = \<lparr>cheatsheets = cheatsheets st @ [new_cheatsheet], keyword_taxonomy = tax\<rparr>
        in (save st', st'))"

text \<open>
  One pass of the loop body of \<^verbatim>\<open>migrate_categories_to_paths\<close>: the documents already
  visited, the taxonomy and the counter are carried along. \<^verbatim>\<open>categories[0]\<close> is read only
  where the list is not empty (the inner test repeats the outer one).
\<close>

definition migrate_step :: "string \<Rightarrow> cheatsheet list \<times> taxonomy \<times> nat \<Rightarrow> cheatsheet \<Rightarrow> cheatsheet list \<times> taxonomy \<times> nat" where
  "migrate_step default_root acc cs =
     (case acc of (visited, tax, migrated) \<Rightarrow>
        if keyword_path cs = None \<and> categories cs \<noteq> []
        then (case categories cs of
                main_category # _ \<Rightarrow>
                  (visited @ [cs\<lparr>keyword_path := Some [default_root, main_category]\<rparr>],
                   ensure_keyword_path_exists tax [default_root, main_category],
                   migrated + 1)
              | [] \<Rightarrow> (visited @ [cs], tax, migrated))
        else (visited @ [cs], tax, migrated))"

definition migrate_categories_to_paths :: "store \<Rightarrow> string \<Rightarrow> nat \<times> store" where
  "migrate_categories_to_paths st default_root =
     (case foldl (migrate_step default_root) ([], keyword_taxonomy st, 0) (cheatsheets st) of
        (docs', tax', migrated) \<Rightarrow>
          (migrated, \<lparr>cheatsheets = docs', keyword_taxonomy = tax'\<rparr>))"

section \<open>Properties stated by the specification\<close>

text \<open>A token occurs in an indexed field of a document.\<close>

definition token_in_fields :: "string \<Rightarrow> cheatsheet \<Rightarrow> bool" where
  "token_in_fields t cs \<longleftrightarrow>
     t \<in> set (tokenize (name cs))
   \<or> (\<exists>c \<in> set (categories cs). t \<in> set (tokenize c))
   \<or> (case keyword_path cs of None \<Rightarrow> False | Some kp \<Rightarrow> \<exists>k \<in> set kp. t \<in> set (tokenize k))
   \<or> t \<in> set (tokenize (description cs))
   \<or> t \<in> set (tokenize (content cs))"

text \<open>A keyword path exists as a chain of nodes from the root.\<close>

fun path_exists :: "taxonomy \<Rightarrow> string list \<Rightarrow> bool" where
  "path_exists tax [] \<longleftrightarrow> True"
| "path_exists (Node children) (keyword # rest) \<longleftrightarrow>
     (case map_of children keyword of None \<Rightarrow> False | Some child \<Rightarrow> path_exists child rest)"

text \<open>Every prefix of every keyword path in use exists in the taxonomy.\<close>

definition taxonomy_invariant :: "store \<Rightarrow> bool" where
  "taxonomy_invariant st \<longleftrightarrow>
     (\<forall>cs \<in> set (cheatsheets st).
        case keyword_path cs of
          None \<Rightarrow> True
        | Some kp \<Rightarrow> \<forall>p \<in> set (prefixes kp). path_exists (keyword_taxonomy st) p)"

text \<open>
  The maximum similarity as the specification words it: the maximum of the ratios between the
  lowercased query and the name, each category and each keyword-path segment of a document,
  the fields taken as they are stored. The name is always there, so the set is not empty.
\<close>

definition stored_field_ratios :: "(string \<Rightarrow> string \<Rightarrow> 's) \<Rightarrow> string \<Rightarrow> cheatsheet \<Rightarrow> 's list" where
  "stored_field_ratios ratio query cs =
     map (\<lambda>field. ratio (lower query) field)
         (name cs # categories cs @ (case keyword_path cs of None \<Rightarrow> [] | Some kp \<Rightarrow> kp))"

definition best_stored_ratio :: "(string \<Rightarrow> string \<Rightarrow> 's::linorder) \<Rightarrow> string \<Rightarrow> cheatsheet \<Rightarrow> 's" where
  "best_stored_ratio ratio query cs = Max (set (stored_field_ratios ratio query cs))"

text \<open>
  The maximum similarity with the comparison made case-insensitive, as the code makes it: the
  maximum of the ratios between the lowercased query and the lowercased name, each lowercased
  category and each lowercased keyword-path segment.
\<close>

definition lowered_field_ratios :: "(string \<Rightarrow> string \<Rightarrow> 's) \<Rightarrow> string \<Rightarrow> cheatsheet \<Rightarrow> 's list" where
  "lowered_field_ratios ratio query cs =
     map (\<lambda>field. ratio (lower query) (lower field))
         (name cs # categories cs @ (case keyword_path cs of None \<Rightarrow> [] | Some kp \<Rightarrow> kp))"

definition best_lowered_ratio :: "(string \<Rightarrow> string \<Rightarrow> 's::linorder) \<Rightarrow> string \<Rightarrow> cheatsheet \<Rightarrow> 's" where
  "best_lowered_ratio ratio query cs = Max (set (lowered_field_ratios ratio query cs))"

subsection \<open>The example documents of the specification\<close>

definition example_doc :: "string \<Rightarrow> string list \<Rightarrow> cheatsheet" where
  "example_doc n kp =
     \<lparr>name = n, content = [], categories = [], keyword_path = Some kp,
      description = [], created_at = [], updated_at = []\<rparr>"

definition git_basics :: cheatsheet where
  "git_basics = example_doc ''git-basics'' [''Computers'', ''VCS'', ''Git'']"

definition git_advanced :: cheatsheet where
  "git_advanced = example_doc ''git-advanced'' [''Computers'', ''VCS'', ''Git'']"

definition bash_tips :: cheatsheet where
  "bash_tips = example_doc ''bash-tips'' [''Computers'', ''Shell'']"

definition example_docs :: "cheatsheet list" where
  "example_docs = [git_basics, git_advanced, bash_tips]"

text \<open>The last step of \<^verbatim>\<open>full_text_search\<close>: the optional restriction to a keyword path.\<close>

definition path_filter :: "string list option \<Rightarrow> cheatsheet list \<Rightarrow> cheatsheet list" where
  "path_filter kw_path results =
     (if truthy kw_path
      then filter (\<lambda>cs. case keyword_path cs of None \<Rightarrow> False
                        | Some kp \<Rightarrow> is_prefix (arg_list kw_path) kp) results
      else results)"

text \<open>The posting set of a token, empty when the token is not a key.\<close>

definition posting :: "(string \<rightharpoonup> nat set) \<Rightarrow> string \<Rightarrow> nat set" where
  "posting index t = (case index t of None \<Rightarrow> {} | Some s \<Rightarrow> s)"

lemma index_add_apply:
  "index_add i index t t' = (if t' = t then Some (insert i (posting index t)) else index t')"
  by (auto simp: index_add_def posting_def Let_def)

lemma foldl_index_add:
  "foldl (index_add i) index toks t =
     (if t \<in> set toks then Some (insert i (posting index t)) else index t)"
proof (induction toks arbitrary: index)
  case Nil
  show ?case by simp
next
  case (Cons a toks)
  have "foldl (index_add i) index (a # toks) t = foldl (index_add i) (index_add i index a) toks t"
    by simp
  also have "\<dots> = (if t \<in> set toks then Some (insert i (posting (index_add i index a) t))
                    else index_add i index a t)"
    by (rule Cons.IH)
  also have "\<dots> = (if t \<in> set (a # toks) then Some (insert i (posting index t)) else index t)"
    by (auto simp: posting_def index_add_apply)
  finally show ?case .
qed

lemma index_text_apply:
  "index_text i index text t =
     (if t \<in> set (tokenize text) then Some (insert i (posting index t)) else index t)"
  by (simp add: index_text_def foldl_index_add)

lemma foldl_index_text:
  "foldl (index_text i) index texts t =
     (if \<exists>x \<in> set texts. t \<in> set (tokenize x) then Some (insert i (posting index t)) else index t)"
proof (induction texts arbitrary: index)
  case Nil
  show ?case by simp
next
  case (Cons a texts)
  have "foldl (index_text i) index (a # texts) t = foldl (index_text i) (index_text i index a) texts t"
    by simp
  also have "\<dots> = (if \<exists>x \<in> set texts. t \<in> set (tokenize x)
                    then Some (insert i (posting (index_text i index a) t))
                    else index_text i index a t)"
    by (rule Cons.IH)
  also have "\<dots> = (if \<exists>x \<in> set (a # texts). t \<in> set (tokenize x)
                    then Some (insert i (posting index t)) else index t)"
    by (auto simp: posting_def index_text_apply)
  finally show ?case .
qed

lemma index_cheatsheet_apply:
  "index_cheatsheet index (i, cs) t =
     (if token_in_fields t cs then Some (insert i (posting index t)) else index t)"
  by (auto simp: index_cheatsheet_def Let_def token_in_fields_def index_text_apply
      foldl_index_text posting_def split: option.splits)

lemma foldl_index_cheatsheet:
  "foldl index_cheatsheet index (enumerate n docs) t =
     (if \<exists>j < length docs. token_in_fields t (docs ! j)
      then Some (posting index t \<union> {n + j |j. j < length docs \<and> token_in_fields t (docs ! j)})
      else index t)"
proof (induction docs arbitrary: index n)
  case Nil
  show ?case by simp
next
  case (Cons d docs)
  have split_ex: "(\<exists>j < length (d # docs). token_in_fields t ((d # docs) ! j)) \<longleftrightarrow>
      token_in_fields t d \<or> (\<exists>j < length docs. token_in_fields t (docs ! j))"
    by (auto simp: nth_Cons less_Suc_eq_0_disj)
  have split_set: "{n + j |j. j < length (d # docs) \<and> token_in_fields t ((d # docs) ! j)} =
      (if token_in_fields t d then {n} else {}) \<union>
      {Suc n + j |j. j < length docs \<and> token_in_fields t (docs ! j)}"
    (is "?L = ?R")
  proof (rule set_eqI)
    fix x
    have "x \<in> ?L \<longleftrightarrow> (\<exists>j. x = n + j \<and> j < Suc (length docs) \<and> token_in_fields t ((d # docs) ! j))"
      by simp
    also have "\<dots> \<longleftrightarrow> (x = n \<and> token_in_fields t d) \<or>
        (\<exists>j. x = n + Suc j \<and> j < length docs \<and> token_in_fields t (docs ! j))"
      by (simp add: less_Suc_eq_0_disj ex_disj_distrib conj_disj_distribL conj_disj_distribR) auto
    also have "\<dots> \<longleftrightarrow> x \<in> ?R"
      by auto
    finally show "x \<in> ?L \<longleftrightarrow> x \<in> ?R" .
  qed
  have "foldl index_cheatsheet index (enumerate n (d # docs)) t =
        foldl index_cheatsheet (index_cheatsheet index (n, d)) (enumerate (Suc n) docs) t"
    by simp
  also have "\<dots> = (if \<exists>j < length docs. token_in_fields t (docs ! j)
      then Some (posting (index_cheatsheet index (n, d)) t \<union>
                 {Suc n + j |j. j < length docs \<and> token_in_fields t (docs ! j)})
      else index_cheatsheet index (n, d) t)"
    by (rule Cons.IH)
  also have "\<dots> = (if \<exists>j < length (d # docs). token_in_fields t ((d # docs) ! j)
      then Some (posting index t \<union> {n + j |j. j < length (d # docs) \<and> token_in_fields t ((d # docs) ! j)})
      else index t)"
    unfolding split_ex split_set
    by (auto simp: posting_def index_cheatsheet_apply)
  finally show ?case .
qed

lemma create_index_apply:
  "create_index docs t =
     (if \<exists>d \<in> set docs. token_in_fields t d
      then Some {j. j < length docs \<and> token_in_fields t (docs ! j)}
      else None)"
proof -
  have ex: "(\<exists>d \<in> set docs. token_in_fields t d) \<longleftrightarrow>
            (\<exists>j < length docs. token_in_fields t (docs ! j))"
    by (metis in_set_conv_nth)
  show ?thesis
    unfolding ex by (simp add: create_index_def foldl_index_cheatsheet posting_def)
qed

section \<open>What the index holds\<close>

lemma match_tokens_missing:
  "\<exists>t \<in> set toks. index t = None \<Longrightarrow> match_tokens index toks acc = Return_Empty"
  by (induction toks arbitrary: acc) (auto split: option.splits)

lemma match_tokens_present:
  "\<forall>t \<in> set toks. index t \<noteq> None \<Longrightarrow>
   match_tokens index toks (Some m) = Finished (Some (m \<inter> (\<Inter>t \<in> set toks. the (index t))))"
  by (induction toks arbitrary: m) (auto split: option.splits)

lemma match_tokens_start:
  assumes "toks \<noteq> []" and "\<forall>t \<in> set toks. index t \<noteq> None"
  shows "match_tokens index toks None = Finished (Some (\<Inter>t \<in> set toks. the (index t)))"
proof (cases toks)
  case Nil
  with assms show ?thesis by simp
next
  case (Cons a rest)
  from assms Cons obtain p where p: "index a = Some p" by auto
  from assms Cons have rest: "\<forall>t \<in> set rest. index t \<noteq> None" by simp
  show ?thesis
    using p Cons by (simp add: match_tokens_present [OF rest])
qed

lemma lookup_all_in_range:
  "\<forall>i \<in> set is. i < length xs \<Longrightarrow> lookup_all xs is = Inr (map ((!) xs) is)"
  by (induction "is") auto

lemma sorted_list_of_positions:
  "sorted_list_of_set {j. j < n \<and> P j} = filter P [0..<n]"
proof -
  have "{j. j < n \<and> P j} = set (filter P [0..<n])" by auto
  moreover have "sorted (filter P [0..<n])" "distinct (filter P [0..<n])"
    by (simp_all add: sorted_wrt_filter)
  ultimately show ?thesis
    by (metis sorted_list_of_set.idem_if_sorted_distinct)
qed

lemma map_nth_filter_positions:
  "map ((!) xs) (filter (\<lambda>j. P (xs ! j)) [0..<length xs]) = filter P xs"
proof -
  have "map ((!) xs) (filter (\<lambda>j. P (xs ! j)) [0..<length xs]) =
        filter P (map ((!) xs) [0..<length xs])"
    by (simp add: filter_map comp_def)
  then show ?thesis by (simp add: map_nth)
qed

lemma full_text_search_char:
  "full_text_search docs query kw_path =
     Inr (if tokenize query = [] then []
          else path_filter kw_path
                 (filter (\<lambda>d. \<forall>t \<in> set (tokenize query). token_in_fields t d) docs))"
proof (cases "tokenize query = []")
  case True
  then show ?thesis by (simp add: full_text_search_def)
next
  case False
  let ?toks = "tokenize query"
  let ?index = "create_index docs"
  show ?thesis
  proof (cases "\<exists>t \<in> set ?toks. ?index t = None")
    case True
    then obtain t where t: "t \<in> set ?toks" "?index t = None" by blast
    then have "\<forall>d \<in> set docs. \<not> token_in_fields t d"
      by (simp add: create_index_apply split: if_splits)
    with t have "filter (\<lambda>d. \<forall>t \<in> set ?toks. token_in_fields t d) docs = []"
      by (auto simp: filter_empty_conv)
    moreover have "match_tokens ?index ?toks None = Return_Empty"
      using True by (rule match_tokens_missing)
    ultimately show ?thesis
      using False by (simp add: full_text_search_def path_filter_def)
  next
    case present: False
    then have all: "\<forall>t \<in> set ?toks. ?index t \<noteq> None" by simp
    have posting: "the (?index t) = {j. j < length docs \<and> token_in_fields t (docs ! j)}"
      if "t \<in> set ?toks" for t
    proof -
      from all that have "?index t \<noteq> None" by blast
      then have "\<exists>d \<in> set docs. token_in_fields t d"
        by (simp add: create_index_apply split: if_splits)
      then show ?thesis by (simp add: create_index_apply)
    qed
    from False obtain t0 where t0: "t0 \<in> set ?toks" by (cases ?toks) auto
    have inter: "(\<Inter>t \<in> set ?toks. the (?index t)) =
        {j. j < length docs \<and> (\<forall>t \<in> set ?toks. token_in_fields t (docs ! j))}"
      using t0 by (auto simp: posting)
    have m: "match_tokens ?index ?toks None =
        Finished (Some {j. j < length docs \<and> (\<forall>t \<in> set ?toks. token_in_fields t (docs ! j))})"
      using match_tokens_start [OF False all] inter by simp
    have l: "lookup_all docs (sorted_list_of_set
          {j. j < length docs \<and> (\<forall>t \<in> set ?toks. token_in_fields t (docs ! j))}) =
        Inr (filter (\<lambda>d. \<forall>t \<in> set ?toks. token_in_fields t d) docs)"
      using map_nth_filter_positions [of docs "\<lambda>d. \<forall>t \<in> set ?toks. token_in_fields t d"]
      by (simp add: sorted_list_of_positions lookup_all_in_range)
    show ?thesis
      using False by (simp add: full_text_search_def m l path_filter_def)
  qed
qed


section \<open>Evaluating the example documents\<close>

lemmas text_defs = tokenize_def lower_def lower_char_def ascii_upper_def ascii_lower_def
  ascii_digits_def re_sub_punct_def is_word_char_def is_space_char_def py_split_def

lemmas example_defs = example_docs_def git_basics_def git_advanced_def bash_tips_def example_doc_def

lemma tokenize_empty: "tokenize [] = []"
  by (simp add: tokenize_def)

lemma tokenize_example_names:
  "tokenize ''git-basics'' = [''git'', ''basics'']"
  "tokenize ''git-advanced'' = [''git'', ''advanced'']"
  "tokenize ''bash-tips'' = [''bash'', ''tips'']"
  by (simp_all add: text_defs)

lemma tokenize_example_keywords:
  "tokenize ''Computers'' = [''computers'']"
  "tokenize ''VCS'' = [''vcs'']"
  "tokenize ''Git'' = [''git'']"
  "tokenize ''Shell'' = [''shell'']"
  by (simp_all add: text_defs)

lemmas example_tokens = tokenize_empty tokenize_example_names tokenize_example_keywords

lemma tokenize_git_basics: "tokenize ''git basics'' = [''git'', ''basics'']"
  by (simp add: text_defs)

lemma tokenize_git_missing:
  "tokenize ''git nonexistentterm'' = [''git'', ''nonexistentterm'']"
  by (simp add: text_defs)

lemma tokenize_git: "tokenize ''git'' = [''git'']"
  by (simp add: text_defs)

lemma fts_git_basics: "full_text_search example_docs ''git basics'' None = Inr [git_basics]"
  by (simp add: full_text_search_char tokenize_git_basics path_filter_def token_in_fields_def
      example_defs example_tokens)

lemma fts_git: "full_text_search example_docs ''git'' None = Inr [git_basics, git_advanced]"
  by (simp add: full_text_search_char tokenize_git path_filter_def token_in_fields_def
      example_defs example_tokens)

lemma missing_in_no_example:
  "\<forall>d \<in> set example_docs. \<not> token_in_fields ''nonexistentterm'' d"
  by (simp add: token_in_fields_def example_defs example_tokens)

section \<open>Full-text search returns documents that hold every query token\<close>

lemma path_filter_subset: "set (path_filter kw_path results) \<subseteq> set results"
  by (auto simp: path_filter_def)

text \<open>
  C1. For every query and every document set, \<^verbatim>\<open>full_text_search\<close> returns (without an
  exception) a list of documents of the set, and every returned document holds every token
  of the tokenized query in one of its indexed fields: name, categories, keyword-path
  segments, description or content.
\<close>

theorem full_text_search_all_tokens:
  "\<exists>results. full_text_search docs query kw_path = Inr results
     \<and> set results \<subseteq> set docs
     \<and> (\<forall>d \<in> set results. \<forall>t \<in> set (tokenize query). token_in_fields t d)"
proof (cases "tokenize query = []")
  case True
  then show ?thesis by (simp add: full_text_search_char)
next
  case False
  let ?hits = "filter (\<lambda>d. \<forall>t \<in> set (tokenize query). token_in_fields t d) docs"
  have "full_text_search docs query kw_path = Inr (path_filter kw_path ?hits)"
    using False by (simp add: full_text_search_char)
  moreover have "set (path_filter kw_path ?hits) \<subseteq> set ?hits"
    by (rule path_filter_subset)
  ultimately show ?thesis by auto
qed

theorem full_text_search_all_tokens_witness:
  "full_text_search example_docs ''git basics'' None = Inr [git_basics]
   \<and> git_basics \<in> set example_docs
   \<and> token_in_fields ''git'' git_basics \<and> token_in_fields ''basics'' git_basics"
  using full_text_search_all_tokens [of example_docs "''git basics''" None]
  by (simp add: fts_git_basics tokenize_git_basics)

text \<open>
  C4. When a token of the tokenized query is not a key of the inverted index, which is the
  case exactly when it occurs in no indexed field of any document, \<^verbatim>\<open>full_text_search\<close>
  returns the empty list for the whole query.
\<close>

theorem full_text_search_missing_token:
  assumes "t \<in> set (tokenize query)"
  shows "(create_index docs t = None \<longleftrightarrow> (\<forall>d \<in> set docs. \<not> token_in_fields t d))
       \<and> (create_index docs t = None \<longrightarrow> full_text_search docs query kw_path = Inr [])"
proof (intro conjI impI)
  show "create_index docs t = None \<longleftrightarrow> (\<forall>d \<in> set docs. \<not> token_in_fields t d)"
    by (simp add: create_index_apply)
next
  assume "create_index docs t = None"
  then have "\<forall>d \<in> set docs. \<not> token_in_fields t d"
    by (simp add: create_index_apply split: if_splits)
  with assms have "filter (\<lambda>d. \<forall>t \<in> set (tokenize query). token_in_fields t d) docs = []"
    by (auto simp: filter_empty_conv)
  then show "full_text_search docs query kw_path = Inr []"
    by (simp add: full_text_search_char path_filter_def)
qed

theorem full_text_search_missing_token_witness:
  "''nonexistentterm'' \<in> set (tokenize ''git nonexistentterm'')
   \<and> create_index example_docs ''nonexistentterm'' = None
   \<and> full_text_search example_docs ''git nonexistentterm'' None = Inr []
   \<and> full_text_search example_docs ''git'' None = Inr [git_basics, git_advanced]"
proof -
  have t: "''nonexistentterm'' \<in> set (tokenize ''git nonexistentterm'')"
    by (simp add: tokenize_git_missing)
  from full_text_search_missing_token [OF t, of example_docs None] missing_in_no_example
  show ?thesis using t fts_git by simp
qed


section \<open>Prefix test on keyword paths\<close>

lemma is_prefix_loop_iff:
  "is_prefix_loop i pfx full_path \<longleftrightarrow> (\<forall>k < length pfx. full_path ! (i + k) = pfx ! k)"
proof (induction pfx arbitrary: i)
  case Nil
  show ?case by simp
next
  case (Cons keyword rest)
  have "(\<forall>k < length (keyword # rest). full_path ! (i + k) = (keyword # rest) ! k) \<longleftrightarrow>
        full_path ! i = keyword \<and> (\<forall>k < length rest. full_path ! (Suc i + k) = rest ! k)"
    by (auto simp: nth_Cons less_Suc_eq_0_disj split: nat.splits)
  then show ?case
    by (simp add: Cons.IH)
qed

lemma is_prefix_positional:
  "is_prefix pfx full_path \<longleftrightarrow>
     length pfx \<le> length full_path \<and> (\<forall>i < length pfx. pfx ! i = full_path ! i)"
  by (auto simp: is_prefix_def is_prefix_loop_iff)

lemma is_prefix_eq_prefix: "is_prefix pfx full_path \<longleftrightarrow> prefix pfx full_path"
proof
  assume "is_prefix pfx full_path"
  then have len: "length pfx \<le> length full_path"
    and nth: "\<And>i. i < length pfx \<Longrightarrow> pfx ! i = full_path ! i"
    by (simp_all add: is_prefix_positional)
  have "pfx = take (length pfx) full_path"
    by (rule nth_equalityI) (use len nth in auto)
  then show "prefix pfx full_path"
    by (metis take_is_prefix)
next
  assume "prefix pfx full_path"
  then obtain rest where "full_path = pfx @ rest" by (auto simp: prefix_def)
  then show "is_prefix pfx full_path"
    by (simp add: is_prefix_positional nth_append)
qed

text \<open>
  C6. \<^verbatim>\<open>_is_prefix(prefix, full_path)\<close> is true exactly when the prefix is empty, or it is no
  longer than the full path and agrees with it at every position of the prefix. The empty
  path is a prefix of every path, every path is a prefix of itself, and a path extended by
  one keyword is never a prefix of the path itself.
\<close>

theorem is_prefix_spec:
  "(is_prefix pfx full_path \<longleftrightarrow>
      pfx = [] \<or> (length pfx \<le> length full_path \<and> (\<forall>i < length pfx. pfx ! i = full_path ! i)))
   \<and> is_prefix [] full_path
   \<and> is_prefix p p
   \<and> \<not> is_prefix (p @ [x]) p"
proof (intro conjI)
  show "is_prefix pfx full_path \<longleftrightarrow>
      pfx = [] \<or> (length pfx \<le> length full_path \<and> (\<forall>i < length pfx. pfx ! i = full_path ! i))"
    by (auto simp: is_prefix_positional)
  show "is_prefix [] full_path" by (simp add: is_prefix_positional)
  show "is_prefix p p" by (simp add: is_prefix_positional)
  show "\<not> is_prefix (p @ [x]) p" by (simp add: is_prefix_positional)
qed

theorem is_prefix_spec_witness:
  "is_prefix [''Computers'', ''VCS''] [''Computers'', ''VCS'', ''Git'']
   \<and> \<not> is_prefix [''Computers'', ''Shell''] [''Computers'', ''VCS'', ''Git'']
   \<and> is_prefix [] [''Computers'']
   \<and> \<not> is_prefix ([''Computers''] @ [''VCS'']) [''Computers'']"
  using is_prefix_spec [of "[''Computers'', ''VCS'']" "[''Computers'', ''VCS'', ''Git'']"
                           "[''Computers'']" "''VCS''"]
        is_prefix_spec [of "[''Computers'', ''Shell'']" "[''Computers'', ''VCS'', ''Git'']"]
        is_prefix_spec [of "[]" "[''Computers'']"]
  by (simp add: less_Suc_eq_0_disj)

section \<open>Creating and browsing taxonomy paths\<close>

text \<open>The child the walk of \<^verbatim>\<open>_ensure_keyword_path_exists\<close> steps into: the one found, or a new empty node.\<close>

definition child_or_new :: "(string \<times> taxonomy) list \<Rightarrow> string \<Rightarrow> taxonomy" where
  "child_or_new children keyword = (case map_of children keyword of None \<Rightarrow> Node [] | Some c \<Rightarrow> c)"

lemma ensure_Cons:
  "ensure_keyword_path_exists (Node children) (keyword # rest) =
     Node (AList.update keyword
             (ensure_keyword_path_exists (child_or_new children keyword) rest) children)"
  by (cases "map_of children keyword") (simp_all add: child_or_new_def update_conv')

lemma child_or_new_update [simp]: "child_or_new (AList.update k v children) k = v"
  by (simp add: child_or_new_def update_conv')

lemma path_exists_ensure:
  "path_exists (ensure_keyword_path_exists tax path) path"
proof (induction path arbitrary: tax)
  case Nil
  show ?case by simp
next
  case (Cons keyword rest)
  obtain children where tax: "tax = Node children" by (cases tax)
  show ?case
    unfolding tax ensure_Cons by (simp add: update_conv' Cons.IH)
qed

lemma path_exists_ensure_mono:
  "path_exists tax q \<Longrightarrow> path_exists (ensure_keyword_path_exists tax path) q"
proof (induction path arbitrary: tax q)
  case Nil
  then show ?case by simp
next
  case (Cons keyword rest)
  obtain children where tax: "tax = Node children" by (cases tax)
  show ?case
  proof (cases q)
    case Nil
    then show ?thesis by simp
  next
    case q: (Cons k q')
    from Cons.prems obtain c where c: "map_of children k = Some c" "path_exists c q'"
      by (auto simp: tax q split: option.splits)
    show ?thesis
    proof (cases "k = keyword")
      case True
      with c have "child_or_new children keyword = c" by (simp add: child_or_new_def)
      with c(2) True show ?thesis
        unfolding tax ensure_Cons q by (simp add: update_conv' Cons.IH)
    next
      case False
      with c show ?thesis
        unfolding tax ensure_Cons q by (simp add: update_conv')
    qed
  qed
qed

lemma path_exists_prefix:
  "path_exists tax (p @ q) \<Longrightarrow> path_exists tax p"
proof (induction p arbitrary: tax)
  case Nil
  show ?case by simp
next
  case (Cons k p)
  obtain children where tax: "tax = Node children" by (cases tax)
  from Cons.prems show ?case
    by (auto simp: tax split: option.splits intro: Cons.IH)
qed

lemma ensure_idempotent:
  "ensure_keyword_path_exists (ensure_keyword_path_exists tax path) path =
   ensure_keyword_path_exists tax path"
proof (induction path arbitrary: tax)
  case Nil
  show ?case by simp
next
  case (Cons keyword rest)
  obtain children where tax: "tax = Node children" by (cases tax)
  show ?case
    unfolding tax ensure_Cons by (simp add: Cons.IH)
qed

lemma last_child_after_ensure:
  "path \<noteq> [] \<Longrightarrow>
   last path \<in> set (keyword_children_at (ensure_keyword_path_exists tax path) (butlast path))"
proof (induction path arbitrary: tax)
  case Nil
  then show ?case by simp
next
  case (Cons keyword rest)
  obtain children where tax: "tax = Node children" by (cases tax)
  show ?case
  proof (cases "rest = []")
    case True
    show ?thesis
      unfolding tax ensure_Cons True by (simp add: dom_update)
  next
    case False
    with Cons.IH show ?thesis
      unfolding tax ensure_Cons by (simp add: update_conv')
  qed
qed

definition shell_taxonomy :: taxonomy where
  "shell_taxonomy = Node [(''Computers'', Node [(''Shell'', Node [])])]"

definition git_taxonomy :: taxonomy where
  "git_taxonomy =
     Node [(''Computers'', Node [(''Shell'', Node []), (''VCS'', Node [(''Git'', Node [])])])]"

lemma ensure_git: "ensure_keyword_path_exists shell_taxonomy [''Computers'', ''VCS'', ''Git''] = git_taxonomy"
  by (simp add: shell_taxonomy_def git_taxonomy_def)

text \<open>
  C7. After \<^verbatim>\<open>_ensure_keyword_path_exists(P)\<close> with a non-empty path \<open>P\<close>, on any taxonomy,
  \<^verbatim>\<open>get_keyword_children(P[:-1])\<close> lists \<^verbatim>\<open>P[-1]\<close>; and ensuring the same path a second
  time leaves the taxonomy as it is.
\<close>

theorem ensure_then_children:
  "(path \<noteq> [] \<longrightarrow>
      last path \<in> set (get_keyword_children (ensure_keyword_path_exists tax path)
                          (Some (butlast path))))
   \<and> ensure_keyword_path_exists (ensure_keyword_path_exists tax path) path =
     ensure_keyword_path_exists tax path"
  by (simp add: get_keyword_children_def last_child_after_ensure ensure_idempotent)

theorem ensure_then_children_witness:
  "ensure_keyword_path_exists shell_taxonomy [''Computers'', ''VCS'', ''Git''] = git_taxonomy
   \<and> ''Git'' \<in> set (get_keyword_children git_taxonomy (Some [''Computers'', ''VCS'']))
   \<and> ensure_keyword_path_exists git_taxonomy [''Computers'', ''VCS'', ''Git''] = git_taxonomy"
  using ensure_then_children [of "[''Computers'', ''VCS'', ''Git'']" shell_taxonomy]
  by (simp add: ensure_git)

section \<open>The taxonomy covers every keyword path in use\<close>

text \<open>Every prefix of the keyword path of one document exists in the taxonomy.\<close>

definition doc_paths_exist :: "taxonomy \<Rightarrow> cheatsheet \<Rightarrow> bool" where
  "doc_paths_exist tax cs \<longleftrightarrow>
     (case keyword_path cs of
        None \<Rightarrow> True
      | Some kp \<Rightarrow> \<forall>p \<in> set (prefixes kp). path_exists tax p)"

lemma taxonomy_invariant_alt:
  "taxonomy_invariant st \<longleftrightarrow> (\<forall>cs \<in> set (cheatsheets st). doc_paths_exist (keyword_taxonomy st) cs)"
  by (simp add: taxonomy_invariant_def doc_paths_exist_def)

lemma doc_paths_exist_mono:
  "doc_paths_exist tax cs \<Longrightarrow> doc_paths_exist (ensure_keyword_path_exists tax path) cs"
  by (auto simp: doc_paths_exist_def path_exists_ensure_mono split: option.splits)

lemma doc_paths_exist_new:
  "keyword_path cs = Some kp \<Longrightarrow> doc_paths_exist (ensure_keyword_path_exists tax kp) cs"
proof -
  assume kp: "keyword_path cs = Some kp"
  have "path_exists (ensure_keyword_path_exists tax kp) p" if "prefix p kp" for p
  proof -
    from that obtain q where "kp = p @ q" by (auto simp: prefix_def)
    with path_exists_ensure [of tax kp] show ?thesis
      by (metis path_exists_prefix)
  qed
  with kp show ?thesis by (simp add: doc_paths_exist_def)
qed

lemma migrate_step_paths:
  assumes "migrate_step default_root (visited, tax, n) cs = (visited', tax', n')"
    and "\<forall>d \<in> set visited \<union> set rest. doc_paths_exist tax d"
    and "doc_paths_exist tax cs"
  shows "\<forall>d \<in> set visited' \<union> set rest. doc_paths_exist tax' d"
proof (cases "keyword_path cs = None \<and> categories cs \<noteq> []")
  case False
  with assms show ?thesis
    by (auto simp: migrate_step_def)
next
  case True
  then obtain main_category others where cats: "categories cs = main_category # others"
    by (cases "categories cs") auto
  let ?kp = "[default_root, main_category]"
  let ?cs = "cs\<lparr>keyword_path := Some ?kp\<rparr>"
  from assms(1) True cats have v: "visited' = visited @ [?cs]"
    and t: "tax' = ensure_keyword_path_exists tax ?kp"
    by (simp_all add: migrate_step_def)
  have "doc_paths_exist tax' ?cs"
    unfolding t by (rule doc_paths_exist_new) simp
  moreover have "\<forall>d \<in> set visited \<union> set rest. doc_paths_exist tax' d"
    unfolding t using assms(2) by (blast intro: doc_paths_exist_mono)
  ultimately show ?thesis by (auto simp: v)
qed

lemma migrate_fold_paths:
  "foldl (migrate_step default_root) (visited, tax, n) docs = (docs', tax', n') \<Longrightarrow>
   \<forall>d \<in> set visited \<union> set docs. doc_paths_exist tax d \<Longrightarrow>
   \<forall>d \<in> set docs'. doc_paths_exist tax' d"
proof (induction docs arbitrary: visited tax n)
  case Nil
  then show ?case by simp
next
  case (Cons cs rest)
  obtain v1 t1 n1 where step: "migrate_step default_root (visited, tax, n) cs = (v1, t1, n1)"
    by (cases "migrate_step default_root (visited, tax, n) cs") auto
  from Cons.prems(2) have "\<forall>d \<in> set visited \<union> set rest. doc_paths_exist tax d"
    and "doc_paths_exist tax cs" by simp_all
  from migrate_step_paths [OF step this]
  have "\<forall>d \<in> set v1 \<union> set rest. doc_paths_exist t1 d" .
  moreover from Cons.prems(1) step
  have "foldl (migrate_step default_root) (v1, t1, n1) rest = (docs', tax', n')" by simp
  ultimately show ?case by (rule Cons.IH [rotated])
qed

lemma add_cheatsheet_invariant:
  assumes "taxonomy_invariant st"
  shows "taxonomy_invariant (snd (add_cheatsheet save now st nm cont cats kw_path descr))"
proof (cases "\<not> valid_name nm \<or> (\<exists>cs \<in> set (cheatsheets st). name cs = nm)")
  case True
  with assms show ?thesis by (auto simp: add_cheatsheet_def)
next
  case False
  show ?thesis
  proof (cases "truthy kw_path")
    case no_path: False
    with False assms show ?thesis
      by (auto simp: add_cheatsheet_def Let_def taxonomy_invariant_alt doc_paths_exist_def)
  next
    case True
    then obtain kp where kp: "kw_path = Some kp" "kp \<noteq> []" by (cases kw_path) auto
    let ?new = "\<lparr>name = nm, content = cont, categories = arg_list cats, keyword_path = Some kp,
               description = (case descr of None \<Rightarrow> [] | Some d \<Rightarrow> d),
               created_at = now, updated_at = now\<rparr>"
    let ?tax = "ensure_keyword_path_exists (keyword_taxonomy st) kp"
    have st': "snd (add_cheatsheet save now st nm cont cats kw_path descr) =
        \<lparr>cheatsheets = cheatsheets st @ [?new], keyword_taxonomy = ?tax\<rparr>"
      using False kp by (simp add: add_cheatsheet_def Let_def)
    have "doc_paths_exist ?tax ?new"
      by (rule doc_paths_exist_new) simp
    moreover have "\<forall>cs \<in> set (cheatsheets st). doc_paths_exist ?tax cs"
      using assms by (auto simp: taxonomy_invariant_alt intro: doc_paths_exist_mono)
    ultimately show ?thesis
      unfolding st' by (simp add: taxonomy_invariant_alt)
  qed
qed

lemma migrate_invariant:
  assumes "taxonomy_invariant st"
  shows "taxonomy_invariant (snd (migrate_categories_to_paths st default_root))"
proof -
  obtain docs' tax' n' where
    f: "foldl (migrate_step default_root) ([], keyword_taxonomy st, 0) (cheatsheets st) = (docs', tax', n')"
    by (cases "foldl (migrate_step default_root) ([], keyword_taxonomy st, 0) (cheatsheets st)") auto
  from assms have "\<forall>d \<in> set [] \<union> set (cheatsheets st). doc_paths_exist (keyword_taxonomy st) d"
    by (simp add: taxonomy_invariant_alt)
  from migrate_fold_paths [OF f this] show ?thesis
    by (simp add: migrate_categories_to_paths_def f taxonomy_invariant_alt)
qed

text \<open>A store as in the repository's tests: one document with a path, one with categories only.\<close>

definition legacy_doc :: cheatsheet where
  "legacy_doc =
     \<lparr>name = ''test3'', content = ''Test content 3 without path'',
      categories = [''git'', ''version-control''], keyword_path = None,
      description = ''Test cheatsheet 3 without path'',
      created_at = ''2025-03-16T12:00:00'', updated_at = ''2025-03-16T12:00:00''\<rparr>"

definition shell_store :: store where
  "shell_store = \<lparr>cheatsheets = [bash_tips, legacy_doc], keyword_taxonomy = shell_taxonomy\<rparr>"

lemma shell_store_invariant: "taxonomy_invariant shell_store"
  by (simp add: taxonomy_invariant_def shell_store_def shell_taxonomy_def bash_tips_def
      example_doc_def legacy_doc_def)

lemma add_git_basics_taxonomy:
  "keyword_taxonomy (snd (add_cheatsheet (\<lambda>_. True) ''2025-03-16T12:00:00'' shell_store
       ''git-basics'' [] None (Some [''Computers'', ''VCS'', ''Git'']) None)) = git_taxonomy"
  by (simp add: add_cheatsheet_def valid_name_def name_char_def ascii_lower_def ascii_upper_def
      ascii_digits_def shell_store_def bash_tips_def example_doc_def legacy_doc_def Let_def
      shell_taxonomy_def git_taxonomy_def)

lemma migrate_shell_store:
  "migrate_categories_to_paths shell_store ''Uncategorized'' =
     (1, \<lparr>cheatsheets = [bash_tips, legacy_doc\<lparr>keyword_path := Some [''Uncategorized'', ''git'']\<rparr>],
          keyword_taxonomy = Node [(''Computers'', Node [(''Shell'', Node [])]),
                                   (''Uncategorized'', Node [(''git'', Node [])])]\<rparr>)"
  by (simp add: migrate_categories_to_paths_def migrate_step_def shell_store_def bash_tips_def
      example_doc_def legacy_doc_def shell_taxonomy_def)

text \<open>
  C5. \<^verbatim>\<open>add_cheatsheet\<close> (with or without a keyword path, accepted or refused) and
  \<^verbatim>\<open>migrate_categories_to_paths\<close> preserve the taxonomy invariant: when every prefix of
  every document's keyword path exists in the taxonomy before the call, the same holds of
  the store after it, the new or migrated paths included.
\<close>

theorem taxonomy_invariant_preserved:
  assumes "taxonomy_invariant st"
  shows "taxonomy_invariant (snd (add_cheatsheet save now st nm cont cats kw_path descr))
       \<and> taxonomy_invariant (snd (migrate_categories_to_paths st default_root))"
  using assms by (simp add: add_cheatsheet_invariant migrate_invariant)

theorem taxonomy_invariant_preserved_witness:
  "taxonomy_invariant shell_store
   \<and> keyword_taxonomy (snd (add_cheatsheet (\<lambda>_. True) ''2025-03-16T12:00:00'' shell_store
       ''git-basics'' [] None (Some [''Computers'', ''VCS'', ''Git'']) None)) = git_taxonomy
   \<and> taxonomy_invariant (snd (add_cheatsheet (\<lambda>_. True) ''2025-03-16T12:00:00'' shell_store
       ''git-basics'' [] None (Some [''Computers'', ''VCS'', ''Git'']) None))
   \<and> fst (migrate_categories_to_paths shell_store ''Uncategorized'') = 1
   \<and> taxonomy_invariant (snd (migrate_categories_to_paths shell_store ''Uncategorized''))"
  using taxonomy_invariant_preserved [OF shell_store_invariant,
      of "\<lambda>_. True" "''2025-03-16T12:00:00''" "''git-basics''" "[]" None
         "Some [''Computers'', ''VCS'', ''Git'']" None "''Uncategorized''"]
        shell_store_invariant add_git_basics_taxonomy
  by (simp add: migrate_shell_store)


section \<open>An empty keyword-path filter\<close>

lemmas lower_defs = lower_def lower_char_def ascii_upper_def ascii_lower_def

lemma py_in_empty: "py_in [] s"
  by (cases s) simp_all

lemma matches_query_empty: "matches_query [] cs"
  by (simp add: matches_query_def py_in_empty)

lemma lower_empty: "lower [] = []"
  by (simp add: lower_def)

lemma basic_search_empty_query:
  "basic_search docs [] kw_path =
     (if truthy kw_path then search_by_keyword_path docs (arg_list kw_path) False else docs)"
  by (simp add: basic_search_def search_cheatsheets_def lower_empty matches_query_empty)

lemma tokenize_dash: "tokenize ''-'' = []"
  by (simp add: text_defs)

lemma git_matches_legacy: "matches_query (lower ''git'') legacy_doc"
  by (simp add: matches_query_def legacy_doc_def lower_defs)

lemma git_not_bash: "\<not> matches_query (lower ''git'') bash_tips"
  by (simp add: matches_query_def bash_tips_def example_doc_def lower_defs)

lemma basic_git_legacy: "basic_search [bash_tips, legacy_doc] ''git'' None = [legacy_doc]"
  using git_matches_legacy git_not_bash
  by (simp add: basic_search_def search_cheatsheets_def)

text \<open>
  C10. \<^verbatim>\<open>basic_search\<close>, \<^verbatim>\<open>full_text_search\<close> and \<^verbatim>\<open>semantic_search\<close> return the same
  with the empty list as keyword-path filter as with no filter; in particular a document
  without a keyword path that matches the query is still returned by \<^verbatim>\<open>basic_search\<close>.
\<close>

theorem empty_filter_is_no_filter:
  "basic_search docs query (Some []) = basic_search docs query None
   \<and> full_text_search docs query (Some []) = full_text_search docs query None
   \<and> semantic_search sklearn_available tfidf docs query (Some []) =
     semantic_search sklearn_available tfidf docs query None
   \<and> (\<forall>d \<in> set docs. keyword_path d = None \<and> matches_query (lower query) d \<longrightarrow>
          d \<in> set (basic_search docs query (Some [])))"
proof (intro conjI)
  show b: "basic_search docs query (Some []) = basic_search docs query None"
    by (simp add: basic_search_def search_cheatsheets_def)
  show "full_text_search docs query (Some []) = full_text_search docs query None"
    by (simp add: full_text_search_char path_filter_def)
  show "semantic_search sklearn_available tfidf docs query (Some []) =
     semantic_search sklearn_available tfidf docs query None"
    unfolding semantic_search_def b by simp
  show "\<forall>d \<in> set docs. keyword_path d = None \<and> matches_query (lower query) d \<longrightarrow>
          d \<in> set (basic_search docs query (Some []))"
    by (simp add: basic_search_def search_cheatsheets_def)
qed

theorem empty_filter_is_no_filter_witness:
  "keyword_path legacy_doc = None
   \<and> matches_query (lower ''git'') legacy_doc
   \<and> legacy_doc \<in> set (basic_search [bash_tips, legacy_doc] ''git'' (Some []))
   \<and> basic_search [bash_tips, legacy_doc] ''git'' (Some []) = [legacy_doc]
   \<and> full_text_search [bash_tips, legacy_doc] ''git'' (Some []) =
     full_text_search [bash_tips, legacy_doc] ''git'' None"
  using empty_filter_is_no_filter [of "[bash_tips, legacy_doc]" "''git''" False
          "\<lambda>corpus q. Inr ([] :: rat list)"]
        git_matches_legacy basic_git_legacy
  by (simp add: legacy_doc_def)

section \<open>Fuzzy search keeps the documents above the threshold, best first\<close>

lemma insort_key_pairs:
  "insort_key snd (x, f x) (map (\<lambda>y. (y, f y)) ys) = map (\<lambda>y. (y, f y)) (insort_key f x ys)"
  by (induction ys) simp_all

lemma sort_key_pairs:
  "sort_key snd (map (\<lambda>y. (y, f y)) xs) = map (\<lambda>y. (y, f y)) (sort_key f xs)"
  by (induction xs) (simp_all add: insort_key_pairs)

lemma sort_reverse_pairs:
  "map fst (sort_reverse snd (map (\<lambda>y. (y, f y)) xs)) = sort_reverse f xs"
proof -
  have "sort_key snd (rev (map (\<lambda>y. (y, f y)) xs)) = map (\<lambda>y. (y, f y)) (sort_key f (rev xs))"
    by (simp only: rev_map sort_key_pairs)
  then show ?thesis
    by (simp add: sort_reverse_def rev_map comp_def)
qed

lemma set_sort_reverse: "set (sort_reverse f xs) = set xs"
  by (simp add: sort_reverse_def)

lemma sort_reverse_descending:
  "sorted_wrt (\<lambda>x y. f y \<le> f x) (sort_reverse f xs)"
proof -
  have "sorted (map f (sort_key f (rev xs)))" by simp
  then have "sorted_wrt (\<lambda>x y. f x \<le> f y) (sort_key f (rev xs))"
    by (simp only: sorted_map)
  then show ?thesis
    by (simp add: sort_reverse_def sorted_wrt_rev)
qed

lemma sort_reverse_stable:
  "filter (\<lambda>y. f y = k) (sort_reverse f xs) = filter (\<lambda>y. f y = k) xs"
  by (simp add: sort_reverse_def rev_filter [symmetric] sort_key_stable)

lemma fuzzy_search_sorted_filter:
  "fuzzy_search ratio docs query threshold =
     sort_reverse (max_similarity ratio (lower query))
       (filter (\<lambda>cs. threshold \<le> max_similarity ratio (lower query) cs) docs)"
proof -
  let ?f = "max_similarity ratio (lower query)"
  have "filter (\<lambda>r. threshold \<le> snd r) (map (\<lambda>cs. (cs, ?f cs)) docs) =
        map (\<lambda>cs. (cs, ?f cs)) (filter (\<lambda>cs. threshold \<le> ?f cs) docs)"
    by (simp add: filter_map comp_def)
  then show ?thesis
    by (simp add: fuzzy_search_def Let_def sort_reverse_pairs)
qed

lemma foldl_max:
  "foldl (\<lambda>acc x. max acc (g x)) a xs = Max (insert a (g ` set xs))"
    for a :: "'s::linorder"
proof (induction xs arbitrary: a)
  case Nil
  show ?case by simp
next
  case (Cons x xs)
  have "Max (insert (max a (g x)) S) = Max (insert a (insert (g x) S))" if "finite S" for S
    using that by (cases "S = {}") (simp_all add: max.assoc)
  then show ?case by (simp add: Cons.IH)
qed

lemma max_similarity_best_ratio:
  assumes "\<forall>a b. 0 \<le> ratio a b"
  shows "max_similarity ratio (lower query) cs = best_lowered_ratio ratio query cs"
proof -
  define r where "r = (\<lambda>field. ratio (lower query) (lower field))"
  define n where "n = r (name cs)"
  define C where "C = r ` set (categories cs)"
  define kps where "kps = (case keyword_path cs of None \<Rightarrow> [] | Some kp \<Rightarrow> kp)"
  define P where "P = r ` set kps"
  have fin: "finite C" "finite P" by (simp_all add: C_def P_def)
  have n0: "0 \<le> n" using assms by (simp add: n_def r_def)
  have path: "(case keyword_path cs of None \<Rightarrow> 0
               | Some kp \<Rightarrow> foldl (\<lambda>acc keyword. max acc (r keyword)) 0 kp) =
              Max (insert 0 P)"
    by (cases "keyword_path cs") (simp_all add: foldl_max P_def kps_def)
  have "max_similarity ratio (lower query) cs =
        max (max n (foldl (\<lambda>acc category. max acc (r category)) 0 (categories cs)))
            (case keyword_path cs of None \<Rightarrow> 0
             | Some kp \<Rightarrow> foldl (\<lambda>acc keyword. max acc (r keyword)) 0 kp)"
    unfolding max_similarity_def Let_def n_def r_def by (rule refl)
  also have "\<dots> = max (max n (Max (insert 0 C))) (Max (insert 0 P))"
    unfolding path by (simp only: foldl_max C_def)
  also have "\<dots> = Max (insert n (insert 0 C \<union> insert 0 P))"
  proof -
    have u: "Max (insert 0 C \<union> insert 0 P) = max (Max (insert 0 C)) (Max (insert 0 P))"
      using fin by (intro Max_Un) simp_all
    have "Max (insert n (insert 0 C \<union> insert 0 P)) = max n (Max (insert 0 C \<union> insert 0 P))"
      using fin by (intro Max_insert) simp_all
    then show ?thesis
      by (simp only: u max.assoc)
  qed
  also have "insert n (insert 0 C \<union> insert 0 P) = insert 0 (insert n (C \<union> P))"
    by auto
  also have "Max (insert 0 (insert n (C \<union> P))) = max 0 (Max (insert n (C \<union> P)))"
    using fin by (intro Max_insert) simp_all
  also have "\<dots> = Max (insert n (C \<union> P))"
  proof -
    have "n \<le> Max (insert n (C \<union> P))" using fin by (intro Max_ge) simp_all
    with n0 have "0 \<le> Max (insert n (C \<union> P))" by (rule order_trans)
    then show ?thesis by (rule max_absorb2)
  qed
  also have "insert n (C \<union> P) = set (lowered_field_ratios ratio query cs)"
    unfolding lowered_field_ratios_def kps_def [symmetric]
    by (simp add: image_Un n_def C_def P_def r_def)
  finally show ?thesis by (simp add: best_lowered_ratio_def)
qed

text \<open>
  C8, amended. For a ratio that is never negative, \<^verbatim>\<open>fuzzy_search\<close> returns exactly the
  documents whose maximum similarity is at least the threshold, where the maximum similarity is
  the maximum of the ratios between the lowercased query and the lowercased name, each
  lowercased category and each lowercased keyword-path segment (description and content are
  not read); the scores do not increase along the result; and the documents of one score
  stand in the order of the document list.
\<close>

theorem fuzzy_search_spec:
  assumes "\<forall>a b. 0 \<le> ratio a b"
  shows "set (fuzzy_search ratio docs query threshold) =
           {d \<in> set docs. threshold \<le> best_lowered_ratio ratio query d}
       \<and> sorted_wrt (\<lambda>d e. best_lowered_ratio ratio query e \<le> best_lowered_ratio ratio query d)
           (fuzzy_search ratio docs query threshold)
       \<and> (\<forall>k. filter (\<lambda>d. best_lowered_ratio ratio query d = k) (fuzzy_search ratio docs query threshold) =
               filter (\<lambda>d. best_lowered_ratio ratio query d = k \<and> threshold \<le> k) docs)"
proof -
  have f: "max_similarity ratio (lower query) = best_lowered_ratio ratio query"
    using max_similarity_best_ratio [OF assms] by (intro ext)
  have r: "fuzzy_search ratio docs query threshold =
      sort_reverse (best_lowered_ratio ratio query)
        (filter (\<lambda>cs. threshold \<le> best_lowered_ratio ratio query cs) docs)"
    by (simp add: fuzzy_search_sorted_filter f)
  have "filter (\<lambda>d. best_lowered_ratio ratio query d = k)
          (filter (\<lambda>cs. threshold \<le> best_lowered_ratio ratio query cs) docs) =
        filter (\<lambda>d. best_lowered_ratio ratio query d = k \<and> threshold \<le> k) docs" for k
    by (rule filter_cong [OF refl, THEN trans [OF filter_filter]]) auto
  then show ?thesis
    unfolding r
    by (simp add: set_sort_reverse sort_reverse_descending sort_reverse_stable)
qed

lemma sequence_ratio_nonneg: "0 \<le> sequence_ratio a b"
  by (simp add: sequence_ratio_def Let_def)

lemma gti_ratios:
  "sequence_ratio ''gti'' ''git-basics'' = 6 / 13"
  "sequence_ratio ''gti'' ''git-advanced'' = 4 / 15"
  "sequence_ratio ''gti'' ''bash-tips'' = 1 / 3"
  "sequence_ratio ''gti'' ''computers'' = 1 / 6"
  "sequence_ratio ''gti'' ''vcs'' = 0"
  "sequence_ratio ''gti'' ''git'' = 2 / 3"
  "sequence_ratio ''gti'' ''shell'' = 0"
  by code_simp+

lemma lower_examples:
  "lower ''gti'' = ''gti''"
  "lower ''git-basics'' = ''git-basics''"
  "lower ''git-advanced'' = ''git-advanced''"
  "lower ''bash-tips'' = ''bash-tips''"
  "lower ''Computers'' = ''computers''"
  "lower ''VCS'' = ''vcs''"
  "lower ''Git'' = ''git''"
  "lower ''Shell'' = ''shell''"
  by (simp_all add: lower_defs)

lemma gti_similarities:
  "max_similarity sequence_ratio ''gti'' git_basics = 2 / 3"
  "max_similarity sequence_ratio ''gti'' git_advanced = 2 / 3"
  "max_similarity sequence_ratio ''gti'' bash_tips = 1 / 3"
  by (simp_all add: max_similarity_def Let_def git_basics_def git_advanced_def bash_tips_def
      example_doc_def lower_examples gti_ratios)

lemma fuzzy_gti:
  "fuzzy_search sequence_ratio example_docs ''gti'' (7 / 10) = []"
  "fuzzy_search sequence_ratio example_docs ''gti'' (19 / 20) = []"
  "fuzzy_search sequence_ratio example_docs ''gti'' (3 / 5) = [git_basics, git_advanced]"
  by (simp_all add: fuzzy_search_def Let_def example_docs_def lower_examples gti_similarities
      sort_reverse_def)

theorem fuzzy_search_spec_witness:
  "(\<forall>a b. 0 \<le> sequence_ratio a b)
   \<and> fuzzy_search sequence_ratio example_docs ''gti'' (3 / 5) = [git_basics, git_advanced]
   \<and> {d \<in> set example_docs. 3 / 5 \<le> best_lowered_ratio sequence_ratio ''gti'' d} = {git_basics, git_advanced}
   \<and> best_lowered_ratio sequence_ratio ''gti'' git_advanced \<le> best_lowered_ratio sequence_ratio ''gti'' git_basics"
proof -
  have nonneg: "\<forall>a b. 0 \<le> sequence_ratio a b"
    by (simp add: sequence_ratio_nonneg)
  from fuzzy_search_spec [OF nonneg, of example_docs "''gti''" "3 / 5"]
  show ?thesis
    using nonneg by (simp add: fuzzy_gti)
qed

text \<open>
  C8, as the specification states it, fails: it compares the lowercased query with the fields
  as they are stored. Against the stored keyword ``Git'' the query ``gti'' scores 1/3, so the
  maximum over the stored fields of the document git-basics is 6/13, below the threshold 0.6;
  yet the code, which lowercases the keyword, returns the document at that threshold.
\<close>

lemma gti_stored_ratios:
  "sequence_ratio ''gti'' ''Computers'' = 1 / 6"
  "sequence_ratio ''gti'' ''VCS'' = 0"
  "sequence_ratio ''gti'' ''Git'' = 1 / 3"
  by code_simp+

lemma gti_stored_best: "best_stored_ratio sequence_ratio ''gti'' git_basics = 6 / 13"
  by (simp add: best_stored_ratio_def stored_field_ratios_def git_basics_def example_doc_def
      lower_examples gti_ratios gti_stored_ratios)

theorem fuzzy_stored_fields_counterexample:
  "best_stored_ratio sequence_ratio ''gti'' git_basics = 6 / 13
   \<and> (6 / 13 :: rat) < 3 / 5
   \<and> git_basics \<in> set (fuzzy_search sequence_ratio example_docs ''gti'' (3 / 5))"
  by (simp add: gti_stored_best fuzzy_gti)

section \<open>The example query ``gti''\<close>

text \<open>
  C9, as the specification states it, fails: at threshold 0.7 the query ``gti'' finds
  nothing in the example documents, because the best ratio, against the keyword ``Git'', is 2/3.
\<close>

theorem fuzzy_gti_counterexample:
  "fuzzy_search sequence_ratio example_docs ''gti'' (7 / 10) = []"
  by (rule fuzzy_gti)

text \<open>
  C9, amended. On the example documents the best ratio of ``gti'' for both git documents is
  2/3. \<^verbatim>\<open>fuzzy_search("gti", threshold=0.7)\<close> returns the empty list; with the threshold
  0.6 it returns both git documents, in the order of the document list; with the threshold
  0.95 it returns the empty list.
\<close>

theorem fuzzy_gti_amended:
  "max_similarity sequence_ratio (lower ''gti'') git_basics = 2 / 3
   \<and> max_similarity sequence_ratio (lower ''gti'') git_advanced = 2 / 3
   \<and> fuzzy_search sequence_ratio example_docs ''gti'' (7 / 10) = []
   \<and> fuzzy_search sequence_ratio example_docs ''gti'' (3 / 5) = [git_basics, git_advanced]
   \<and> fuzzy_search sequence_ratio example_docs ''gti'' (19 / 20) = []"
  by (simp add: lower_examples gti_similarities fuzzy_gti)

section \<open>Queries without tokens\<close>

text \<open>A document with a category that is mostly punctuation.\<close>

definition cpp_doc :: cheatsheet where
  "cpp_doc =
     \<lparr>name = ''cpp-tips'', content = ''Templates and iterators'', categories = [''c++''],
      keyword_path = None, description = [], created_at = [], updated_at = []\<rparr>"

lemma tokenize_plus: "tokenize ''++'' = []"
  by (simp add: text_defs)

lemma plus_ratios:
  "sequence_ratio ''++'' ''cpp-tips'' = 0"
  "sequence_ratio ''++'' ''c++'' = 4 / 5"
  by code_simp+

lemma lower_cpp:
  "lower ''++'' = ''++''"
  "lower ''cpp-tips'' = ''cpp-tips''"
  "lower ''c++'' = ''c++''"
  by (simp_all add: lower_defs)

lemma fuzzy_plus: "fuzzy_search sequence_ratio [cpp_doc] ''++'' (7 / 10) = [cpp_doc]"
  by (simp add: fuzzy_search_def Let_def max_similarity_def cpp_doc_def lower_cpp plus_ratios
      sort_reverse_def)

lemma basic_plus: "basic_search [cpp_doc] ''++'' None = [cpp_doc]"
  by (simp add: basic_search_def search_cheatsheets_def matches_query_def cpp_doc_def lower_cpp)

text \<open>
  C3, as the specification states it, fails: the query ``++'' and the empty query have no
  tokens, yet \<^verbatim>\<open>basic_search\<close> and \<^verbatim>\<open>fuzzy_search\<close>, which do not tokenize, return
  documents.
\<close>

theorem empty_tokens_counterexample:
  "tokenize ''++'' = []
   \<and> basic_search [cpp_doc] ''++'' None = [cpp_doc]
   \<and> fuzzy_search sequence_ratio [cpp_doc] ''++'' (7 / 10) = [cpp_doc]
   \<and> tokenize [] = []
   \<and> basic_search example_docs [] None = [git_basics, git_advanced, bash_tips]"
proof -
  have "basic_search example_docs [] None = [git_basics, git_advanced, bash_tips]"
    by (simp add: basic_search_empty_query example_docs_def)
  then show ?thesis
    by (simp add: tokenize_empty tokenize_plus basic_plus fuzzy_plus)
qed

text \<open>
  C3, amended. For every document set and path filter, \<^verbatim>\<open>full_text_search\<close> and
  \<^verbatim>\<open>semantic_search\<close> return the empty result, without an exception, when the query has no
  tokens (for \<^verbatim>\<open>semantic_search\<close> whether or not sklearn can be imported).
  \<^verbatim>\<open>basic_search\<close> compares the raw lowercased query: for the empty string it returns
  every document that passes the path filter.
\<close>

theorem empty_tokens_amended:
  assumes "tokenize query = []"
  shows "full_text_search docs query kw_path = Inr []
       \<and> semantic_search sklearn_available tfidf docs query kw_path = Inr ([], [])
       \<and> basic_search docs [] kw_path =
           (if truthy kw_path then search_by_keyword_path docs (arg_list kw_path) False else docs)"
proof (intro conjI)
  show "full_text_search docs query kw_path = Inr []"
    using assms by (simp add: full_text_search_char)
  show "semantic_search sklearn_available tfidf docs query kw_path = Inr ([], [])"
    using assms by (simp add: semantic_search_def Let_def)
  show "basic_search docs [] kw_path =
           (if truthy kw_path then search_by_keyword_path docs (arg_list kw_path) False else docs)"
    by (rule basic_search_empty_query)
qed

theorem empty_tokens_amended_witness:
  "tokenize ''-'' = []
   \<and> full_text_search example_docs ''-'' None = Inr []
   \<and> semantic_search False (\<lambda>corpus q. Inr ([] :: rat list)) example_docs ''-'' None = Inr ([], [])
   \<and> basic_search example_docs [] None = example_docs"
  using empty_tokens_amended [OF tokenize_dash, of example_docs None False
          "\<lambda>corpus q. Inr ([] :: rat list)"] tokenize_dash
  by simp

section \<open>TF-IDF search without sklearn\<close>

text \<open>
  C2. The specification asks for the fallback to \<^verbatim>\<open>basic_search\<close> when sklearn is missing.
  In the code the import of the vectorizer stands before the \<^verbatim>\<open>try\<close> block, so on a
  query with tokens over a non-empty candidate list the \<^verbatim>\<open>ImportError\<close> leaves
  \<^verbatim>\<open>semantic_search\<close>; \<^verbatim>\<open>basic_search\<close> would have returned both git documents.
\<close>

theorem semantic_search_without_sklearn:
  "semantic_search False tfidf example_docs ''git'' None = Inl ImportError
   \<and> basic_search example_docs ''git'' None = [git_basics, git_advanced]"
  by (simp add: semantic_search_def tokenize_git example_docs_def
      basic_search_def search_cheatsheets_def matches_query_def
      git_basics_def git_advanced_def bash_tips_def example_doc_def lower_defs)


end
